theory Spec2Isabelle
  imports Complex_Main
begin

section \<open>EC2CronScheduler: the Lambda function of Script/lambda\_function.py\<close>

text \<open>
  The handler lists the instances of every region, decides for each instance from its two
  schedule tags whether it is to be started, stopped or left alone, and issues the start
  and stop calls in batches of 50 through a retry wrapper.

  What lies outside the file is a parameter of the model: the \<open>croniter\<close> library, the
  EC2 service behind \<open>boto3\<close>, the clock and the random number generator.
\<close>

subsection \<open>Exceptions and instances\<close>

text \<open>
  An exception of class \<open>Exception\<close>, carried by the text that \<open>str(e)\<close> gives. A function
  that can raise returns \<open>exn + 'a\<close>, with \<open>Inl\<close> for the raised exception.
\<close>

datatype exn = Exception (str: string)

text \<open>
  An instance as \<open>describe_instances\<close> returns it and as the code reads it: the key
  \<open>InstanceId\<close> is indexed, the key \<open>Tags\<close> is read with \<open>.get('Tags', [])\<close> and may be
  absent, and each tag is indexed at \<open>Key\<close> and \<open>Value\<close>.
\<close>

record tag =
  Key :: string
  Value :: string

record ec2_instance =
  InstanceId :: string
  Tags :: "tag list option"

subsection \<open>The croniter library\<close>

text \<open>
  \<open>croniter.is_valid(expression)\<close> and \<open>croniter.match(expression, time)\<close> are library
  calls. They are parameters of the model, and either may raise.
\<close>

record 't croniter =
  is_valid :: "string \<Rightarrow> exn + bool"
  match :: "string \<Rightarrow> 't \<Rightarrow> exn + bool"

subsection \<open>evaluate\_instance\<close>

text \<open>
  \<open>str.lower()\<close>. The result is only ever compared with \<open>'true'\<close>; no character outside
  \<open>A\<close>..\<open>Z\<close> lowercases to one of \<open>t\<close>, \<open>r\<close>, \<open>u\<close>, \<open>e\<close>, so the letters \<open>A\<close>..\<open>Z\<close> are mapped
  and every other character is kept.
\<close>

definition lower_char :: "char \<Rightarrow> char" where
  "lower_char c =
     (case map_of (zip ''ABCDEFGHIJKLMNOPQRSTUVWXYZ'' ''abcdefghijklmnopqrstuvwxyz'') c of
        Some l \<Rightarrow> l
      | None \<Rightarrow> c)"

definition lower :: "string \<Rightarrow> string" where
  "lower s = map lower_char s"

text \<open>
  The dict comprehension \<open>{tag['Key']: tag['Value'] for tag in ...}\<close>: a later tag with the
  same key replaces an earlier one.
\<close>

fun tags_dict :: "tag list \<Rightarrow> (string \<rightharpoonup> string)" where
  "tags_dict [] = Map.empty"
| "tags_dict (t # ts) = (\<lambda>k. case tags_dict ts k of Some v \<Rightarrow> Some v
                                | None \<Rightarrow> if k = Key t then Some (Value t) else None)"

definition instance_tags :: "ec2_instance \<Rightarrow> (string \<rightharpoonup> string)" where
  "instance_tags inst = tags_dict (case Tags inst of None \<Rightarrow> [] | Some ts \<Rightarrow> ts)"

definition apostrophe :: string where
  "apostrophe = [CHR 0x27]"

definition msg_not_scheduled :: "string \<Rightarrow> string" where
  "msg_not_scheduled instance_id =
     ''Skipping instance '' @ instance_id @ '': '' @ apostrophe @ ''WorksOnSchedule''
       @ apostrophe @ '' tag is missing or not true.''"

definition msg_no_expression :: "string \<Rightarrow> string" where
  "msg_no_expression instance_id =
     ''Skipping instance '' @ instance_id @ '': '' @ apostrophe @ ''WorkingExpression''
       @ apostrophe @ '' tag is missing or empty.''"

definition msg_start :: "string \<Rightarrow> string" where
  "msg_start instance_id =
     ''Starting instance '' @ instance_id @ '': Current time matches cron expression.''"

definition msg_stop :: "string \<Rightarrow> string" where
  "msg_stop instance_id =
     ''Stopping instance '' @ instance_id @ '': Current time does not match cron expression.''"

definition msg_invalid :: "string \<Rightarrow> string \<Rightarrow> string" where
  "msg_invalid instance_id working_expression =
     ''Skipping instance '' @ instance_id @ '': Invalid cron expression '' @ apostrophe
       @ working_expression @ apostrophe @ ''.''"

definition msg_error :: "string \<Rightarrow> exn \<Rightarrow> string" where
  "msg_error instance_id e = ''Error evaluating instance '' @ instance_id @ '': '' @ str e"

text \<open>
  The body of the \<open>try\<close> block. The action is \<open>Some ''start''\<close>, \<open>Some ''stop''\<close> or \<open>None\<close>,
  as in the source.
\<close>

definition evaluate_cron ::
  "'t croniter \<Rightarrow> string \<Rightarrow> string \<Rightarrow> 't \<Rightarrow> exn + (string option \<times> string)" where
  "evaluate_cron cr instance_id working_expression current_time =
     (case is_valid cr working_expression of
        Inl e \<Rightarrow> Inl e
      | Inr valid \<Rightarrow>
          if valid then
            (case match cr working_expression current_time of
               Inl e \<Rightarrow> Inl e
             | Inr m \<Rightarrow>
                 if m then Inr (Some ''start'', msg_start instance_id)
                 else Inr (Some ''stop'', msg_stop instance_id))
          else Inr (None, msg_invalid instance_id working_expression))"

definition evaluate_instance ::
  "'t croniter \<Rightarrow> ec2_instance \<Rightarrow> 't \<Rightarrow> exn + (string option \<times> string)" where
  "evaluate_instance cr inst current_time =
     (let instance_id = InstanceId inst;
          tags = instance_tags inst;
          works_on_schedule = tags ''WorksOnSchedule'';
          working_expression = tags ''WorkingExpression''
      in case works_on_schedule of
           None \<Rightarrow> Inr (None, msg_not_scheduled instance_id)
         | Some w \<Rightarrow>
             if lower w \<noteq> ''true'' then Inr (None, msg_not_scheduled instance_id)
             else
               (case working_expression of
                  None \<Rightarrow> Inr (None, msg_no_expression instance_id)
                | Some expr \<Rightarrow>
                    if expr = '''' then Inr (None, msg_no_expression instance_id)
                    else
                      (case evaluate_cron cr instance_id expr current_time of
                         Inr r \<Rightarrow> Inr r
                       | Inl e \<Rightarrow> Inr (None, msg_error instance_id e))))"

subsection \<open>The EC2 service, the clock and the random number generator\<close>

text \<open>
  A page of \<open>describe_instances\<close> holds reservations, and a reservation holds instances.
\<close>

record reservation =
  Instances :: "ec2_instance list"

record page =
  Reservations :: "reservation list"

record region =
  RegionName :: string

text \<open>
  An EC2 client is bound to one region (\<open>boto3.client('ec2', region_name=region)\<close>) and is
  identified by it.
\<close>

type_synonym ec2_client = string

datatype request =
    StartInstances ec2_client "string list"
  | StopInstances ec2_client "string list"

datatype response = Response string

text \<open>
  What a run does to the outside is recorded as a trace, which is the state that the
  model passes along: each call of \<open>start_instances\<close> or \<open>stop_instances\<close> with its outcome,
  each \<open>time.sleep\<close>, and each log record. The two records of the retry wrapper carry the
  exception and the delay instead of the formatted line.
\<close>

datatype event =
    Call request "exn + response"
  | Sleep real
  | LogRetry exn real
  | LogGiveUp exn
  | LogError string
  | LogInfo string

type_synonym world = "event list"

text \<open>
  The surroundings of a run. The outcome of a mutating call, a draw of
  \<open>random.uniform(0, 1)\<close> and a reading of the clock may depend on everything that
  happened before, so a call can fail at one attempt and succeed at the next. The
  listing of the regions and the pages of a region's instances are read once per run;
  a page fetch may fail, and a failure to create a client counts as a failed fetch.
\<close>

record 't env =
  describe_regions :: "exn + region list"
  paginate :: "string \<Rightarrow> (exn + page) list"
  respond :: "world \<Rightarrow> request \<Rightarrow> exn + response"
  uniform :: "world \<Rightarrow> real"
  now :: "world \<Rightarrow> 't"

definition call :: "'t env \<Rightarrow> request \<Rightarrow> world \<Rightarrow> (exn + response) \<times> world" where
  "call env req w = (let out = respond env w req in (out, w @ [Call req out]))"

subsection \<open>exponential\_backoff\<close>

definition max_retries :: nat where
  "max_retries = 5"

definition base_delay :: nat where
  "base_delay = 1"

definition max_delay :: nat where
  "max_delay = 32"

definition backoff_delay :: "nat \<Rightarrow> nat" where
  "backoff_delay attempt = min (base_delay * 2 ^ attempt) max_delay"

text \<open>
  The loop \<open>for attempt in range(max_retries)\<close>, from \<open>attempt\<close> on. A return of \<open>func\<close> is
  \<open>Inr (Some r)\<close>; falling out of the loop would return \<open>None\<close>. The delay is an integer
  plus a float in the source and a real number here.
\<close>

function backoff_attempts ::
  "'t env \<Rightarrow> (world \<Rightarrow> (exn + 'r) \<times> world) \<Rightarrow> nat \<Rightarrow> world \<Rightarrow> (exn + 'r option) \<times> world" where
  "backoff_attempts env func attempt w =
     (if attempt < max_retries then
        (case func w of
           (Inr r, w1) \<Rightarrow> (Inr (Some r), w1)
         | (Inl e, w1) \<Rightarrow>
             if attempt < max_retries - 1 then
               (let sleep_time = real (backoff_delay attempt) + uniform env w1;
                    w2 = w1 @ [LogRetry e sleep_time];
                    w3 = w2 @ [Sleep sleep_time]
                in backoff_attempts env func (attempt + 1) w3)
             else (Inl e, w1 @ [LogGiveUp e]))
      else (Inr None, w))"
  by pat_completeness auto
termination
  by (relation "measure (\<lambda>(env, func, attempt, w). max_retries - attempt)") auto

definition exponential_backoff ::
  "'t env \<Rightarrow> (world \<Rightarrow> (exn + 'r) \<times> world) \<Rightarrow> world \<Rightarrow> (exn + 'r option) \<times> world" where
  "exponential_backoff env func w = backoff_attempts env func 0 w"

subsection \<open>batch\_start\_instances and batch\_stop\_instances\<close>




subsection \<open>get\_all\_regions, get\_instances\_in\_region and process\_region\<close>


text \<open>
  The loop over the pages: every reservation of a page extends \<open>instances\<close>, and a failed
  fetch leaves the function with the exception.
\<close>

fun extend_pages :: "(exn + page) list \<Rightarrow> ec2_instance list \<Rightarrow> exn + ec2_instance list" where
  "extend_pages [] instances = Inr instances"
| "extend_pages (Inl e # pages) instances = Inl e"
| "extend_pages (Inr p # pages) instances =
     extend_pages pages (foldl (\<lambda>acc reservation. acc @ Instances reservation) instances
                           (Reservations p))"

definition get_instances_in_region ::
  "'t env \<Rightarrow> string \<Rightarrow> exn + (ec2_instance list \<times> ec2_client)" where
  "get_instances_in_region env region =
     (case extend_pages (paginate env region) [] of
        Inl e \<Rightarrow> Inl e
      | Inr instances \<Rightarrow> Inr (instances, region))"

text \<open>The loop of \<open>process_region\<close> over the instances, with its three lists.\<close>

fun evaluate_instances ::
  "'t croniter \<Rightarrow> 't \<Rightarrow> ec2_instance list \<Rightarrow> string list \<Rightarrow> string list \<Rightarrow> string list
     \<Rightarrow> exn + (string list \<times> string list \<times> string list)" where
  "evaluate_instances cr current_time [] start_instances stop_instances messages =
     Inr (start_instances, stop_instances, messages)"
| "evaluate_instances cr current_time (inst # instances) start_instances stop_instances messages =
     (case evaluate_instance cr inst current_time of
        Inl e \<Rightarrow> Inl e
      | Inr (action, message) \<Rightarrow>
          if action = Some ''start'' then
            evaluate_instances cr current_time instances
              (start_instances @ [InstanceId inst]) stop_instances (messages @ [message])
          else if action = Some ''stop'' then
            evaluate_instances cr current_time instances
              start_instances (stop_instances @ [InstanceId inst]) (messages @ [message])
          else
            evaluate_instances cr current_time instances
              start_instances stop_instances (messages @ [message]))"

type_synonym region_result = "string list \<times> string list \<times> ec2_client \<times> string list"

definition process_region ::
  "'t env \<Rightarrow> 't croniter \<Rightarrow> string \<Rightarrow> 't \<Rightarrow> exn + region_result" where
  "process_region env cr region current_time =
     (case get_instances_in_region env region of
        Inl e \<Rightarrow> Inl e
      | Inr (instances, ec2_client) \<Rightarrow>
          (case evaluate_instances cr current_time instances [] [] [] of
             Inl e \<Rightarrow> Inl e
           | Inr (start_instances, stop_instances, messages) \<Rightarrow>
               Inr (start_instances, stop_instances, ec2_client, messages)))"

subsection \<open>lambda\_handler\<close>







subsection \<open>Reading a trace\<close>

text \<open>The calls of a trace with their outcomes, in the order in which they were issued.\<close>

fun calls :: "world \<Rightarrow> (request \<times> (exn + response)) list" where
  "calls [] = []"
| "calls (Call req out # w) = (req, out) # calls w"
| "calls (ev # w) = calls w"




subsection \<open>The chunks of a list of identifiers\<close>


subsection \<open>The decision for one instance\<close>

text \<open>The action that \<open>evaluate_instance\<close> returns for an instance, and the message.\<close>

definition action_of :: "'t croniter \<Rightarrow> 't \<Rightarrow> ec2_instance \<Rightarrow> string option" where
  "action_of cr current_time inst =
     (case evaluate_instance cr inst current_time of
        Inr (action, message) \<Rightarrow> action
      | Inl e \<Rightarrow> None)"

definition message_of :: "'t croniter \<Rightarrow> 't \<Rightarrow> ec2_instance \<Rightarrow> string" where
  "message_of cr current_time inst =
     (case evaluate_instance cr inst current_time of
        Inr (action, message) \<Rightarrow> message
      | Inl e \<Rightarrow> str e)"

subsection \<open>Reading the log and the outcomes of the tasks\<close>










subsection \<open>Example data\<close>

text \<open>
  A stand-in for croniter with the time counted in minutes: \<open>* * * * *\<close> matches every
  minute, \<open>0 0 1 1 *\<close> matches minute 0 only, nothing else is valid, and matching against
  \<open>@reboot\<close> raises.
\<close>

definition example_croniter :: "nat croniter" where
  "example_croniter =
     \<lparr>is_valid = (\<lambda>expr. Inr (expr \<in> {''* * * * *'', ''0 0 1 1 *'', ''@reboot''})),
      match = (\<lambda>expr t. if expr = ''@reboot'' then Inl (Exception ''unsupported'')
                          else Inr (expr = ''* * * * *'' \<or> t = 0))\<rparr>"

definition tagged_instance :: "string \<Rightarrow> string \<Rightarrow> string \<Rightarrow> ec2_instance" where
  "tagged_instance instance_id flag expr =
     \<lparr>InstanceId = instance_id,
      Tags = Some [\<lparr>Key = ''WorksOnSchedule'', Value = flag\<rparr>,
                   \<lparr>Key = ''WorkingExpression'', Value = expr\<rparr>]\<rparr>"

text \<open>
  Surroundings with no regions, in which the outcome of a mutating call is given by the
  number of calls made before it, and every draw of the jitter is the same.
\<close>

definition scripted_env :: "(nat \<Rightarrow> exn + response) \<Rightarrow> real \<Rightarrow> nat env" where
  "scripted_env script jitter =
     \<lparr>describe_regions = Inr [], paginate = (\<lambda>region. []),
      respond = (\<lambda>h req. script (length (calls h))),
      uniform = (\<lambda>h. jitter), now = (\<lambda>h. 0)\<rparr>"

definition throttled :: exn where
  "throttled = Exception ''RequestLimitExceeded''"

text \<open>
  Three regions: the listing of the first has two pages and four instances, the second
  page of the second region fails, and the third region has one instance. The first two
  mutating calls of a run are throttled, and the clock advances with the trace.
\<close>

definition example_env :: "nat env" where
  "example_env =
     \<lparr>describe_regions =
        Inr [\<lparr>RegionName = ''eu-west-1''\<rparr>, \<lparr>RegionName = ''us-east-1''\<rparr>,
             \<lparr>RegionName = ''ap-south-1''\<rparr>],
      paginate = (\<lambda>region.
        if region = ''eu-west-1'' then
          [Inr \<lparr>Reservations =
                 [\<lparr>Instances = [tagged_instance ''i-1'' ''true'' ''* * * * *'',
                                 tagged_instance ''i-2'' ''no'' ''* * * * *'']\<rparr>]\<rparr>,
           Inr \<lparr>Reservations =
                 [\<lparr>Instances = [tagged_instance ''i-3'' ''True'' ''0 0 1 1 *'']\<rparr>,
                  \<lparr>Instances = [tagged_instance ''i-4'' ''true'' ''every day'']\<rparr>]\<rparr>]
        else if region = ''us-east-1'' then
          [Inr \<lparr>Reservations = []\<rparr>, Inl (Exception ''AuthFailure'')]
        else
          [Inr \<lparr>Reservations =
                 [\<lparr>Instances = [tagged_instance ''i-5'' ''true'' ''* * * * *'']\<rparr>]\<rparr>]),
      respond = (\<lambda>h req. if length (calls h) < 2 then Inl throttled else Inr (Response ''ok'')),
      uniform = (\<lambda>h. 1 / 2),
      now = (\<lambda>h. 77 + length h)\<rparr>"

section \<open>Properties\<close>

declare backoff_attempts.simps [simp del]


subsection \<open>evaluate\_instance\<close>

lemma tagged_instance_tags:
  "instance_tags (tagged_instance instance_id flag expr) ''WorksOnSchedule'' = Some flag"
  "instance_tags (tagged_instance instance_id flag expr) ''WorkingExpression'' = Some expr"
  "InstanceId (tagged_instance instance_id flag expr) = instance_id"
  by (simp_all add: instance_tags_def tagged_instance_def)

lemma lower_examples:
  "lower ''TRUE'' = ''true''" "lower ''true'' = ''true''" "lower ''yes'' \<noteq> ''true''"
  by (simp_all add: lower_def lower_char_def)

lemma evaluate_instance_returns:
  "\<exists>action reason. evaluate_instance cr inst t = Inr (action, reason)"
  by (cases "evaluate_cron cr (InstanceId inst)
        (the (instance_tags inst ''WorkingExpression'')) t")
     (auto simp: evaluate_instance_def Let_def split: option.splits)




text \<open>
  C2. \<open>evaluate_instance\<close> decides to skip, with the reason of the first rule that applies:
  the tag \<open>WorksOnSchedule\<close> is absent or is not \<open>true\<close> in any letter case; otherwise the
  tag \<open>WorkingExpression\<close> is absent or empty; otherwise croniter finds the expression
  invalid, and then the reason contains the expression as it stands. In each of these
  cases the decision is neither \<open>start\<close> nor \<open>stop\<close>.
\<close>

theorem evaluate_instance_skip:
  "((instance_tags inst ''WorksOnSchedule'' = None \<or>
     (\<exists>flag. instance_tags inst ''WorksOnSchedule'' = Some flag \<and> lower flag \<noteq> ''true''))
    \<longrightarrow> evaluate_instance cr inst t = Inr (None, msg_not_scheduled (InstanceId inst))) \<and>
   ((\<exists>flag. instance_tags inst ''WorksOnSchedule'' = Some flag \<and> lower flag = ''true'') \<and>
    (instance_tags inst ''WorkingExpression'' = None \<or>
     instance_tags inst ''WorkingExpression'' = Some '''')
    \<longrightarrow> evaluate_instance cr inst t = Inr (None, msg_no_expression (InstanceId inst))) \<and>
   ((\<exists>flag. instance_tags inst ''WorksOnSchedule'' = Some flag \<and> lower flag = ''true'') \<and>
    instance_tags inst ''WorkingExpression'' = Some expr \<and> expr \<noteq> '''' \<and>
    is_valid cr expr = Inr False
    \<longrightarrow> evaluate_instance cr inst t = Inr (None, msg_invalid (InstanceId inst) expr) \<and>
        (\<exists>before after. msg_invalid (InstanceId inst) expr = before @ expr @ after)) \<and>
   ((instance_tags inst ''WorksOnSchedule'' = None \<or>
     (\<exists>flag. instance_tags inst ''WorksOnSchedule'' = Some flag \<and> lower flag \<noteq> ''true'') \<or>
     instance_tags inst ''WorkingExpression'' = None \<or>
     instance_tags inst ''WorkingExpression'' = Some '''' \<or>
     (instance_tags inst ''WorkingExpression'' = Some expr \<and> is_valid cr expr = Inr False))
    \<longrightarrow> (\<exists>reason. evaluate_instance cr inst t = Inr (None, reason)))"
proof (intro conjI impI)
  assume "instance_tags inst ''WorksOnSchedule'' = None \<or>
     (\<exists>flag. instance_tags inst ''WorksOnSchedule'' = Some flag \<and> lower flag \<noteq> ''true'')"
  then show "evaluate_instance cr inst t = Inr (None, msg_not_scheduled (InstanceId inst))"
    by (auto simp: evaluate_instance_def Let_def)
next
  assume "(\<exists>flag. instance_tags inst ''WorksOnSchedule'' = Some flag \<and> lower flag = ''true'') \<and>
    (instance_tags inst ''WorkingExpression'' = None \<or>
     instance_tags inst ''WorkingExpression'' = Some '''')"
  then show "evaluate_instance cr inst t = Inr (None, msg_no_expression (InstanceId inst))"
    by (auto simp: evaluate_instance_def Let_def)
next
  assume "(\<exists>flag. instance_tags inst ''WorksOnSchedule'' = Some flag \<and> lower flag = ''true'') \<and>
    instance_tags inst ''WorkingExpression'' = Some expr \<and> expr \<noteq> '''' \<and>
    is_valid cr expr = Inr False"
  then show "evaluate_instance cr inst t = Inr (None, msg_invalid (InstanceId inst) expr)"
    by (auto simp: evaluate_instance_def evaluate_cron_def Let_def)
next
  have "msg_invalid (InstanceId inst) expr =
          (''Skipping instance '' @ InstanceId inst @ '': Invalid cron expression '' @ apostrophe)
            @ expr @ (apostrophe @ ''.'')"
    by (simp add: msg_invalid_def)
  then show "\<exists>before after. msg_invalid (InstanceId inst) expr = before @ expr @ after"
    by blast
next
  assume "instance_tags inst ''WorksOnSchedule'' = None \<or>
     (\<exists>flag. instance_tags inst ''WorksOnSchedule'' = Some flag \<and> lower flag \<noteq> ''true'') \<or>
     instance_tags inst ''WorkingExpression'' = None \<or>
     instance_tags inst ''WorkingExpression'' = Some '''' \<or>
     (instance_tags inst ''WorkingExpression'' = Some expr \<and> is_valid cr expr = Inr False)"
  then show "\<exists>reason. evaluate_instance cr inst t = Inr (None, reason)"
    by (auto simp: evaluate_instance_def evaluate_cron_def Let_def split: option.splits)
qed

theorem evaluate_instance_skip_witness:
  "evaluate_instance example_croniter (tagged_instance ''i-3'' ''yes'' ''* * * * *'') 77 =
     Inr (None, msg_not_scheduled ''i-3'') \<and>
   evaluate_instance example_croniter (tagged_instance ''i-4'' ''true'' '''') 77 =
     Inr (None, msg_no_expression ''i-4'') \<and>
   evaluate_instance example_croniter (tagged_instance ''i-5'' ''true'' ''every day'') 77 =
     Inr (None, ''Skipping instance i-5: Invalid cron expression '' @ apostrophe
                  @ ''every day'' @ apostrophe @ ''.'')"
  using
    evaluate_instance_skip [where inst = "tagged_instance ''i-3'' ''yes'' ''* * * * *''"
      and cr = example_croniter and t = 77]
    evaluate_instance_skip [where inst = "tagged_instance ''i-4'' ''true'' ''''"
      and cr = example_croniter and t = 77]
    evaluate_instance_skip [where inst = "tagged_instance ''i-5'' ''true'' ''every day''"
      and cr = example_croniter and t = 77 and expr = "''every day''"]
  by (simp add: tagged_instance_tags lower_examples example_croniter_def msg_invalid_def)

text \<open>
  C6. \<open>evaluate_instance\<close> returns a decision and a reason for every instance, every time
  and every behaviour of croniter, and raises nothing: when the validity check or the
  match raises, the decision is to skip and the reason ends with the text of the exception.
\<close>

theorem evaluate_instance_never_raises:
  "(\<exists>action reason. evaluate_instance cr inst t = Inr (action, reason)) \<and>
   ((\<exists>flag. instance_tags inst ''WorksOnSchedule'' = Some flag \<and> lower flag = ''true'') \<and>
    instance_tags inst ''WorkingExpression'' = Some expr \<and> expr \<noteq> '''' \<and>
    (is_valid cr expr = Inl e \<or> (is_valid cr expr = Inr True \<and> match cr expr t = Inl e))
    \<longrightarrow> evaluate_instance cr inst t =
          Inr (None, ''Error evaluating instance '' @ InstanceId inst @ '': '' @ str e))"
proof (intro conjI impI)
  show "\<exists>action reason. evaluate_instance cr inst t = Inr (action, reason)"
    by (cases "evaluate_cron cr (InstanceId inst)
        (the (instance_tags inst ''WorkingExpression'')) t")
     (auto simp: evaluate_instance_def Let_def split: option.splits)
next
  assume "(\<exists>flag. instance_tags inst ''WorksOnSchedule'' = Some flag \<and> lower flag = ''true'') \<and>
    instance_tags inst ''WorkingExpression'' = Some expr \<and> expr \<noteq> '''' \<and>
    (is_valid cr expr = Inl e \<or> (is_valid cr expr = Inr True \<and> match cr expr t = Inl e))"
  then show "evaluate_instance cr inst t =
          Inr (None, ''Error evaluating instance '' @ InstanceId inst @ '': '' @ str e)"
    by (auto simp: evaluate_instance_def evaluate_cron_def msg_error_def Let_def)
qed

theorem evaluate_instance_never_raises_witness:
  "evaluate_instance example_croniter (tagged_instance ''i-6'' ''true'' ''@reboot'') 77 =
     Inr (None, ''Error evaluating instance i-6: unsupported'')"
  using
    evaluate_instance_never_raises [where cr = example_croniter
      and inst = "tagged_instance ''i-6'' ''true'' ''@reboot''" and t = 77
      and expr = "''@reboot''" and e = "Exception ''unsupported''"]
  by (simp add: tagged_instance_tags lower_examples example_croniter_def)

subsection \<open>exponential\_backoff\<close>

lemma calls_append: "calls (u @ v) = calls u @ calls v"
  by (induction u rule: calls.induct) simp_all


lemma backoff_attempts_success:
  assumes "a \<le> k" and "k < max_retries"
    and "\<And>j h. a \<le> j \<Longrightarrow> j < k \<Longrightarrow> length (calls h) = n0 + j \<Longrightarrow> respond env h req = Inl (errs j)"
    and "\<And>h. length (calls h) = n0 + k \<Longrightarrow> respond env h req = Inr r"
    and "length (calls w) = n0 + a"
  shows "fst (backoff_attempts env (call env req) a w) = Inr (Some r) \<and>
         calls (snd (backoff_attempts env (call env req) a w)) =
           calls w @ map (\<lambda>j. (req, Inl (errs j))) [a..<k] @ [(req, Inr r)]"
  using assms
proof (induction "k - a" arbitrary: a w)
  case 0
  then have ak: "a = k" by simp
  have "respond env w req = Inr r" using 0 ak by simp
  then show ?case using 0 ak
    by (subst (1 2) backoff_attempts.simps) (simp add: call_def calls_append Let_def)
next
  case (Suc d)
  then have lt: "a < k" by simp
  have f: "respond env w req = Inl (errs a)" using Suc.prems lt by simp
  let ?st = "real (backoff_delay a) + uniform env (w @ [Call req (Inl (errs a))])"
  let ?w3 = "w @ [Call req (Inl (errs a))] @ [LogRetry (errs a) ?st] @ [Sleep ?st]"
  have a1: "a < max_retries" and a2: "a < max_retries - 1" using lt Suc.prems(2) by arith+
  have step: "backoff_attempts env (call env req) a w = backoff_attempts env (call env req) (a + 1) ?w3"
    using a1 a2 f by (subst backoff_attempts.simps) (simp add: call_def Let_def)
  have len: "length (calls ?w3) = n0 + (a + 1)" using Suc.prems(5) by (simp add: calls_append)
  have ih: "fst (backoff_attempts env (call env req) (a + 1) ?w3) = Inr (Some r) \<and>
         calls (snd (backoff_attempts env (call env req) (a + 1) ?w3)) =
           calls ?w3 @ map (\<lambda>j. (req, Inl (errs j))) [a + 1..<k] @ [(req, Inr r)]"
  proof (rule Suc.hyps(1))
    show "d = k - (a + 1)" using Suc.hyps(2) by simp
    show "a + 1 \<le> k" using lt by simp
    show "k < max_retries" by (rule Suc.prems(2))
    show "\<And>j h. a + 1 \<le> j \<Longrightarrow> j < k \<Longrightarrow> length (calls h) = n0 + j \<Longrightarrow> respond env h req = Inl (errs j)"
      using Suc.prems(3) by simp
    show "\<And>h. length (calls h) = n0 + k \<Longrightarrow> respond env h req = Inr r" by (rule Suc.prems(4))
    show "length (calls ?w3) = n0 + (a + 1)" by (rule len)
  qed
  have up: "[a..<k] = a # [a + 1..<k]" using lt by (simp add: upt_conv_Cons)
  show ?case using ih by (simp add: step up calls_append)
qed

lemma backoff_attempts_exhausted:
  assumes "a < max_retries"
    and "\<And>j h. a \<le> j \<Longrightarrow> j < max_retries \<Longrightarrow> length (calls h) = n0 + j \<Longrightarrow>
           respond env h req = Inl (errs j)"
    and "length (calls w) = n0 + a"
  shows "fst (backoff_attempts env (call env req) a w) = Inl (errs (max_retries - 1)) \<and>
         calls (snd (backoff_attempts env (call env req) a w)) =
           calls w @ map (\<lambda>j. (req, Inl (errs j))) [a..<max_retries]"
  using assms
proof (induction "max_retries - a" arbitrary: a w)
  case 0
  then show ?case by simp
next
  case (Suc d)
  have f: "respond env w req = Inl (errs a)" using Suc.prems by simp
  show ?case
  proof (cases "a < max_retries - 1")
    case False
    then have last: "a = max_retries - 1" using Suc.prems(1) by arith
    have "[a..<max_retries] = [a]" using Suc.prems(1) last by (simp add: upt_conv_Cons)
    then show ?thesis using Suc.prems(1) False f last
      by (subst (1 2) backoff_attempts.simps) (simp add: call_def Let_def calls_append)
  next
    case True
    let ?st = "real (backoff_delay a) + uniform env (w @ [Call req (Inl (errs a))])"
    let ?w3 = "w @ [Call req (Inl (errs a))] @ [LogRetry (errs a) ?st] @ [Sleep ?st]"
    have step: "backoff_attempts env (call env req) a w =
                backoff_attempts env (call env req) (a + 1) ?w3"
      using Suc.prems(1) True f by (subst backoff_attempts.simps) (simp add: call_def Let_def)
    have ih: "fst (backoff_attempts env (call env req) (a + 1) ?w3) = Inl (errs (max_retries - 1)) \<and>
         calls (snd (backoff_attempts env (call env req) (a + 1) ?w3)) =
           calls ?w3 @ map (\<lambda>j. (req, Inl (errs j))) [a + 1..<max_retries]"
    proof (rule Suc.hyps(1))
      show "d = max_retries - (a + 1)" using Suc.hyps(2) by simp
      show "a + 1 < max_retries" using True by simp
      show "\<And>j h. a + 1 \<le> j \<Longrightarrow> j < max_retries \<Longrightarrow> length (calls h) = n0 + j \<Longrightarrow>
              respond env h req = Inl (errs j)"
        using Suc.prems(2) by simp
      show "length (calls ?w3) = n0 + (a + 1)" using Suc.prems(3) by (simp add: calls_append)
    qed
    have up: "[a..<max_retries] = a # [a + 1..<max_retries]"
      using Suc.prems(1) by (simp add: upt_conv_Cons)
    show ?thesis using ih by (simp add: step up calls_append)
  qed
qed


text \<open>
  C4. When the operation fails at its first \<open>k < 5\<close> attempts and returns \<open>r\<close> at the next,
  \<open>exponential_backoff\<close> returns \<open>r\<close> and has called the operation \<open>k + 1\<close> times. When the
  operation fails at all of five attempts, \<open>exponential_backoff\<close> has called it five times
  and raises the exception of the fifth attempt.
\<close>

theorem exponential_backoff_attempts:
  "(k < 5 \<and>
    (\<forall>j < k. \<forall>h. length (calls h) = length (calls w) + j \<longrightarrow> respond env h req = Inl (errs j)) \<and>
    (\<forall>h. length (calls h) = length (calls w) + k \<longrightarrow> respond env h req = Inr r)
    \<longrightarrow> fst (exponential_backoff env (call env req) w) = Inr (Some r) \<and>
        calls (snd (exponential_backoff env (call env req) w)) =
          calls w @ map (\<lambda>j. (req, Inl (errs j))) [0..<k] @ [(req, Inr r)] \<and>
        length (calls (snd (exponential_backoff env (call env req) w))) =
          length (calls w) + (k + 1)) \<and>
   ((\<forall>j < 5. \<forall>h. length (calls h) = length (calls w) + j \<longrightarrow> respond env h req = Inl (errs j))
    \<longrightarrow> fst (exponential_backoff env (call env req) w) = Inl (errs 4) \<and>
        calls (snd (exponential_backoff env (call env req) w)) =
          calls w @ map (\<lambda>j. (req, Inl (errs j))) [0..<5] \<and>
        length (calls (snd (exponential_backoff env (call env req) w))) = length (calls w) + 5)"
proof (intro conjI impI)
  assume h: "k < 5 \<and>
    (\<forall>j < k. \<forall>h. length (calls h) = length (calls w) + j \<longrightarrow> respond env h req = Inl (errs j)) \<and>
    (\<forall>h. length (calls h) = length (calls w) + k \<longrightarrow> respond env h req = Inr r)"
  have s: "fst (backoff_attempts env (call env req) 0 w) = Inr (Some r) \<and>
         calls (snd (backoff_attempts env (call env req) 0 w)) =
           calls w @ map (\<lambda>j. (req, Inl (errs j))) [0..<k] @ [(req, Inr r)]"
    by (rule backoff_attempts_success [where ?n0.0 = "length (calls w)"])
       (use h in \<open>simp_all add: max_retries_def\<close>)
  show "fst (exponential_backoff env (call env req) w) = Inr (Some r)"
    using s by (simp add: exponential_backoff_def)
  show c: "calls (snd (exponential_backoff env (call env req) w)) =
          calls w @ map (\<lambda>j. (req, Inl (errs j))) [0..<k] @ [(req, Inr r)]"
    using s by (simp add: exponential_backoff_def)
  show "length (calls (snd (exponential_backoff env (call env req) w))) =
          length (calls w) + (k + 1)"
    by (simp add: c)
next
  assume h: "\<forall>j < 5. \<forall>h. length (calls h) = length (calls w) + j \<longrightarrow> respond env h req = Inl (errs j)"
  have s: "fst (backoff_attempts env (call env req) 0 w) = Inl (errs (max_retries - 1)) \<and>
         calls (snd (backoff_attempts env (call env req) 0 w)) =
           calls w @ map (\<lambda>j. (req, Inl (errs j))) [0..<max_retries]"
    by (rule backoff_attempts_exhausted [where ?n0.0 = "length (calls w)"])
       (use h in \<open>simp_all add: max_retries_def\<close>)
  show "fst (exponential_backoff env (call env req) w) = Inl (errs 4)"
    using s by (simp add: exponential_backoff_def max_retries_def)
  show c: "calls (snd (exponential_backoff env (call env req) w)) =
          calls w @ map (\<lambda>j. (req, Inl (errs j))) [0..<5]"
    using s by (simp add: exponential_backoff_def max_retries_def)
  show "length (calls (snd (exponential_backoff env (call env req) w))) = length (calls w) + 5"
    by (simp add: c)
qed

lemma tally_four: "replicate 4 (CHR ''I'') = ''IIII''"
  by (simp add: numeral_eq_Suc)

theorem exponential_backoff_attempts_witness:
  "fst (exponential_backoff
          (scripted_env (\<lambda>n. if n < 2 then Inl throttled else Inr (Response ''ok'')) 0)
          (call (scripted_env (\<lambda>n. if n < 2 then Inl throttled else Inr (Response ''ok'')) 0)
             (StartInstances ''eu-west-1'' [''i-1''])) []) = Inr (Some (Response ''ok'')) \<and>
   length (calls (snd (exponential_backoff
          (scripted_env (\<lambda>n. if n < 2 then Inl throttled else Inr (Response ''ok'')) 0)
          (call (scripted_env (\<lambda>n. if n < 2 then Inl throttled else Inr (Response ''ok'')) 0)
             (StartInstances ''eu-west-1'' [''i-1''])) []))) = 3 \<and>
   fst (exponential_backoff
          (scripted_env (\<lambda>n. Inl (Exception (''failure '' @ replicate n (CHR ''I'')))) 0)
          (call (scripted_env (\<lambda>n. Inl (Exception (''failure '' @ replicate n (CHR ''I'')))) 0)
             (StopInstances ''eu-west-1'' [''i-1''])) []) = Inl (Exception ''failure IIII'') \<and>
   length (calls (snd (exponential_backoff
          (scripted_env (\<lambda>n. Inl (Exception (''failure '' @ replicate n (CHR ''I'')))) 0)
          (call (scripted_env (\<lambda>n. Inl (Exception (''failure '' @ replicate n (CHR ''I'')))) 0)
             (StopInstances ''eu-west-1'' [''i-1''])) []))) = 5"
  using
    exponential_backoff_attempts [where k = 2 and w = "[]" and r = "Response ''ok''"
      and env = "scripted_env (\<lambda>n. if n < 2 then Inl throttled else Inr (Response ''ok'')) 0"
      and req = "StartInstances ''eu-west-1'' [''i-1'']" and errs = "\<lambda>j. throttled"]
    exponential_backoff_attempts [where w = "[]"
      and env = "scripted_env (\<lambda>n. Inl (Exception (''failure '' @ replicate n (CHR ''I'')))) 0"
      and req = "StopInstances ''eu-west-1'' [''i-1'']"
      and errs = "\<lambda>n. Exception (''failure '' @ replicate n (CHR ''I''))"]
  by (simp add: scripted_env_def tally_four)




subsection \<open>batch\_start\_instances and batch\_stop\_instances\<close>













subsection \<open>process\_region\<close>

lemma evaluate_instance_action_message:
  "evaluate_instance cr inst t = Inr (action_of cr t inst, message_of cr t inst)"
  using evaluate_instance_returns [of cr inst t]
  by (auto simp: action_of_def message_of_def)

lemma evaluate_instances_partition:
  "evaluate_instances cr t instances start_instances stop_instances messages =
     Inr (start_instances @
            map InstanceId (filter (\<lambda>inst. action_of cr t inst = Some ''start'') instances),
          stop_instances @
            map InstanceId (filter (\<lambda>inst. action_of cr t inst = Some ''stop'') instances),
          messages @ map (message_of cr t) instances)"
proof (induction instances arbitrary: start_instances stop_instances messages)
  case Nil
  then show ?case by simp
next
  case (Cons inst instances)
  show ?case
    by (simp add: evaluate_instance_action_message Cons.IH)
qed

lemma foldl_extend:
  "foldl (\<lambda>acc reservation. acc @ Instances reservation) instances reservations =
     instances @ concat (map Instances reservations)"
  by (induction reservations arbitrary: instances) simp_all

lemma extend_pages_all:
  "extend_pages (map Inr pages) instances =
     Inr (instances @ concat (map (\<lambda>p. concat (map Instances (Reservations p))) pages))"
  by (induction pages arbitrary: instances) (simp_all add: foldl_extend)

lemma process_region_lists:
  assumes "get_instances_in_region env region = Inr (instances, ec2_client)"
  shows "process_region env cr region t =
           Inr (map InstanceId (filter (\<lambda>inst. action_of cr t inst = Some ''start'') instances),
                map InstanceId (filter (\<lambda>inst. action_of cr t inst = Some ''stop'') instances),
                ec2_client, map (message_of cr t) instances)"
  using assms by (simp add: process_region_def evaluate_instances_partition)

lemma in_map_filter_inj:
  "inj_on f (set xs) \<Longrightarrow> x \<in> set xs \<Longrightarrow> f x \<in> set (map f (filter P xs)) \<longleftrightarrow> P x"
  by (auto dest: inj_onD)

lemma disjoint_map_filter_inj:
  "inj_on f (set xs) \<Longrightarrow> (\<And>x. \<not> (P x \<and> Q x)) \<Longrightarrow>
     set (map f (filter P xs)) \<inter> set (map f (filter Q xs)) = {}"
  by (auto dest: inj_onD)

text \<open>
  C7. When the listing of a region succeeds, \<open>process_region\<close> returns the identifiers of
  the instances that evaluate to \<open>start\<close> and of those that evaluate to \<open>stop\<close>, each list
  in the order of the listing, which is the order of the pages and of the reservations
  in them; skipped instances are in neither list. With identifiers that are unique in
  the region, an identifier is in the start list exactly when its instance evaluates to
  \<open>start\<close>, in the stop list exactly when it evaluates to \<open>stop\<close>, and the two lists are
  disjoint.
\<close>

theorem process_region_partitions:
  assumes "get_instances_in_region env region = Inr (instances, ec2_client)"
  shows "\<exists>start_instances stop_instances messages.
           process_region env cr region t =
             Inr (start_instances, stop_instances, ec2_client, messages) \<and>
           start_instances =
             map InstanceId (filter (\<lambda>inst. action_of cr t inst = Some ''start'') instances) \<and>
           stop_instances =
             map InstanceId (filter (\<lambda>inst. action_of cr t inst = Some ''stop'') instances) \<and>
           (\<forall>pages. paginate env region = map Inr pages \<longrightarrow>
              instances = concat (map (\<lambda>p. concat (map Instances (Reservations p))) pages)) \<and>
           (distinct (map InstanceId instances) \<longrightarrow>
              set start_instances \<inter> set stop_instances = {} \<and>
              (\<forall>inst \<in> set instances.
                 (InstanceId inst \<in> set start_instances
                    \<longleftrightarrow> action_of cr t inst = Some ''start'') \<and>
                 (InstanceId inst \<in> set stop_instances
                    \<longleftrightarrow> action_of cr t inst = Some ''stop'')))"
proof -
  let ?start = "map InstanceId (filter (\<lambda>inst. action_of cr t inst = Some ''start'') instances)"
  let ?stop = "map InstanceId (filter (\<lambda>inst. action_of cr t inst = Some ''stop'') instances)"
  have listing: "\<forall>pages. paginate env region = map Inr pages \<longrightarrow>
              instances = concat (map (\<lambda>p. concat (map Instances (Reservations p))) pages)"
    using assms by (auto simp: get_instances_in_region_def extend_pages_all)
  have part: "distinct (map InstanceId instances) \<longrightarrow>
              set ?start \<inter> set ?stop = {} \<and>
              (\<forall>inst \<in> set instances.
                 (InstanceId inst \<in> set ?start \<longleftrightarrow> action_of cr t inst = Some ''start'') \<and>
                 (InstanceId inst \<in> set ?stop \<longleftrightarrow> action_of cr t inst = Some ''stop''))"
  proof (intro impI conjI ballI)
    assume "distinct (map InstanceId instances)"
    then have inj: "inj_on InstanceId (set instances)" by (simp add: distinct_map)
    have "\<And>inst. \<not> (action_of cr t inst = Some ''start'' \<and> action_of cr t inst = Some ''stop'')"
      by simp
    then show "set ?start \<inter> set ?stop = {}"
      by (rule disjoint_map_filter_inj [OF inj])
    fix inst
    assume i: "inst \<in> set instances"
    show "InstanceId inst \<in> set ?start \<longleftrightarrow> action_of cr t inst = Some ''start''"
      by (rule in_map_filter_inj [OF inj i])
    show "InstanceId inst \<in> set ?stop \<longleftrightarrow> action_of cr t inst = Some ''stop''"
      by (rule in_map_filter_inj [OF inj i])
  qed
  show ?thesis
    using process_region_lists [OF assms, of cr t] listing part by blast
qed

lemma example_listing:
  "get_instances_in_region example_env ''eu-west-1'' =
     Inr ([tagged_instance ''i-1'' ''true'' ''* * * * *'',
           tagged_instance ''i-2'' ''no'' ''* * * * *'',
           tagged_instance ''i-3'' ''True'' ''0 0 1 1 *'',
           tagged_instance ''i-4'' ''true'' ''every day''], ''eu-west-1'')"
  by (simp add: get_instances_in_region_def example_env_def)

lemma example_actions:
  "action_of example_croniter 77 (tagged_instance ''i-1'' ''true'' ''* * * * *'') = Some ''start''"
  "action_of example_croniter 77 (tagged_instance ''i-2'' ''no'' ''* * * * *'') = None"
  "action_of example_croniter 77 (tagged_instance ''i-3'' ''True'' ''0 0 1 1 *'') = Some ''stop''"
  "action_of example_croniter 77 (tagged_instance ''i-4'' ''true'' ''every day'') = None"
  "action_of example_croniter 77 (tagged_instance ''i-5'' ''true'' ''* * * * *'') = Some ''start''"
  by (simp_all add: action_of_def evaluate_instance_def evaluate_cron_def tagged_instance_tags
        lower_def lower_char_def example_croniter_def Let_def)

theorem process_region_partitions_witness:
  "\<exists>messages. process_region example_env example_croniter ''eu-west-1'' 77 =
     Inr ([''i-1''], [''i-3''], ''eu-west-1'', messages)"
  using
    process_region_partitions [OF example_listing, where cr = example_croniter and t = 77]
  by (auto simp: example_actions tagged_instance_tags)

subsection \<open>lambda\_handler\<close>



































end
